theory Spec2Isabelle
  imports Main "HOL-Library.Word" "HOL-Library.Multiset"
begin

section \<open>NetworkGameState.cpp: the shared game state and the leaderboard\<close>

text \<open>
  The translation unit keeps two global aggregates, \<^verbatim>\<open>currentGameState\<close> and
  \<^verbatim>\<open>leaderboard\<close>. Every function below takes the aggregate it works on and returns
  the updated one. The header \<^verbatim>\<open>NetworkGameState.h\<close> fixes the capacities and the sizes
  of the character arrays; they are collected in a record of parameters. Messages written
  to \<^verbatim>\<open>std::cerr\<close> and \<^verbatim>\<open>std::cout\<close> are not part of the state.
\<close>

subsection \<open>Constants of the header\<close>

record config =
  MAX_NETWORK_OBJECTS :: nat
  MAX_LEADERBOARD_SCORES :: nat
  MAX_NAME_LENGTH :: nat
  TIME_FORMAT :: nat
  NAME_SIZE :: nat
  TIMESTAMP_SIZE :: nat

text \<open>
  \<open>NAME_SIZE\<close> and \<open>TIMESTAMP_SIZE\<close> are the declared numbers of elements of the arrays
  \<^verbatim>\<open>NetworkScore::name\<close> and \<^verbatim>\<open>NetworkScore::timestamp\<close>; \<open>MAX_NAME_LENGTH\<close> and
  \<open>TIME_FORMAT\<close> are the counts handed to \<^verbatim>\<open>strncpy_s\<close>.
\<close>

subsection \<open>Faults\<close>

text \<open>
  \<open>OutOfBounds\<close>: an access outside an array (undefined behaviour in C++).
  \<open>InvalidParameter\<close>: the C runtime's invalid-parameter handler was invoked; the
  default handler terminates the process.
\<close>

datatype fault = OutOfBounds | InvalidParameter

subsection \<open>Game state store\<close>

type_synonym uint32_t = "32 word"

text \<open>A \<^verbatim>\<open>float\<close> is only ever copied here; it is kept as its 32-bit pattern.\<close>

type_synonym float32 = "32 word"

datatype AEVec2 = AEVec2 (vec_x: float32) (vec_y: float32)

record Transform =
  position :: AEVec2
  velocity :: AEVec2
  scale :: AEVec2

record NetworkObject =
  "identifier" :: uint32_t
  transform :: Transform

record NetworkGameState =
  objects :: "NetworkObject list"
  objectCount :: nat

text \<open>
  The loop \<^verbatim>\<open>for (uint32_t x = 0; x < currentGameState.objectCount; ++x)\<close> that both
  \<^verbatim>\<open>SetNetworkObject\<close> and \<^verbatim>\<open>GetNetworkObject\<close> run: it stops at the first index whose
  identifier matches. \<open>Inr (Some x)\<close> is the index where the body is entered, \<open>Inr None\<close>
  is falling out of the loop.
\<close>

function scan_objects :: "NetworkObject list \<Rightarrow> nat \<Rightarrow> uint32_t \<Rightarrow> nat \<Rightarrow> fault + nat option" where
  "scan_objects objs cnt ident x =
     (if x < cnt then
        (if length objs \<le> x then Inl OutOfBounds
         else if identifier (objs ! x) = ident then Inr (Some x)
         else scan_objects objs cnt ident (x + 1))
      else Inr None)"
  by pat_completeness auto
termination
  by (relation "measure (\<lambda>(objs, cnt, ident, x). cnt - x)") auto

declare scan_objects.simps [simp del]

definition set_transform :: "AEVec2 \<Rightarrow> AEVec2 \<Rightarrow> AEVec2 \<Rightarrow> NetworkObject \<Rightarrow> NetworkObject" where
  "set_transform pos vel scl obj =
     obj\<lparr>transform := (transform obj)\<lparr>position := pos, velocity := vel, scale := scl\<rparr>\<rparr>"

definition SetNetworkObject ::
  "config \<Rightarrow> uint32_t \<Rightarrow> AEVec2 \<Rightarrow> AEVec2 \<Rightarrow> AEVec2 \<Rightarrow> NetworkGameState
     \<Rightarrow> fault + (bool \<times> NetworkGameState)" where
  "SetNetworkObject cfg ident pos vel scl s =
     (case scan_objects (objects s) (objectCount s) ident 0 of
        Inl f \<Rightarrow> Inl f
      | Inr (Some x) \<Rightarrow>
          Inr (True, s\<lparr>objects := (objects s)[x := set_transform pos vel scl (objects s ! x)]\<rparr>)
      | Inr None \<Rightarrow>
          (if objectCount s < MAX_NETWORK_OBJECTS cfg then
             (let index = objectCount s in
              if length (objects s) \<le> index then Inl OutOfBounds
              else Inr (True,
                s\<lparr>objects := (objects s)[index :=
                     set_transform pos vel scl ((objects s ! index)\<lparr>identifier := ident\<rparr>)],
                  objectCount := objectCount s + 1\<rparr>))
           else Inr (False, s)))"

text \<open>
  \<^verbatim>\<open>GetNetworkObject\<close> writes its three reference parameters only on a hit; the model
  takes their current values and returns them with the result.
\<close>

definition GetNetworkObject ::
  "uint32_t \<Rightarrow> AEVec2 \<times> AEVec2 \<times> AEVec2 \<Rightarrow> NetworkGameState
     \<Rightarrow> fault + (bool \<times> (AEVec2 \<times> AEVec2 \<times> AEVec2))" where
  "GetNetworkObject ident outs s =
     (case scan_objects (objects s) (objectCount s) ident 0 of
        Inl f \<Rightarrow> Inl f
      | Inr (Some x) \<Rightarrow>
          Inr (True, (position (transform (objects s ! x)),
                      velocity (transform (objects s ! x)),
                      scale (transform (objects s ! x))))
      | Inr None \<Rightarrow> Inr (False, outs))"

text \<open>The declared shape of the aggregate: an array of the capacity, a count within it.\<close>

definition gs_wf :: "config \<Rightarrow> NetworkGameState \<Rightarrow> bool" where
  "gs_wf cfg s \<longleftrightarrow> length (objects s) = MAX_NETWORK_OBJECTS cfg \<and> objectCount s \<le> MAX_NETWORK_OBJECTS cfg"

text \<open>The identifiers of the live objects, in array order.\<close>

definition live_ids :: "NetworkGameState \<Rightarrow> uint32_t list" where
  "live_ids s = map identifier (take (objectCount s) (objects s))"

subsection \<open>Character arrays and the secure string copy\<close>

definition NUL :: char where
  "NUL = CHR 0x00"

text \<open>The C string held in a character array, or passed as \<^verbatim>\<open>char const*\<close>: the text before the first NUL.\<close>

definition c_str :: "char list \<Rightarrow> string" where
  "c_str buf = takeWhile (\<lambda>c. c \<noteq> NUL) buf"

text \<open>
  Reading an array as a C string (\<^verbatim>\<open>operator<<\<close> on \<^verbatim>\<open>char const*\<close>) runs to the first NUL;
  an array without one is read past its end.
\<close>

definition read_c_str :: "char list \<Rightarrow> fault + string" where
  "read_c_str buf = (if NUL \<in> set buf then Inr (c_str buf) else Inl OutOfBounds)"

text \<open>
  \<^verbatim>\<open>strncpy_s(dest, src, count)\<close>, the overload of the Microsoft C runtime that takes the
  destination array by reference and so knows its number of elements (\<open>length dest\<close>).
  With \<open>D\<close> the lesser of the count \<open>cnt\<close> and the length of the source: when \<open>D\<close> characters and
  a terminator fit, they are stored and the elements after the terminator stay as they were
  (the debug runtime fills them with a pattern instead; nothing below depends on them);
  otherwise the invalid-parameter handler is invoked. It truncates silently only for the
  count \<^verbatim>\<open>_TRUNCATE\<close>, which this program does not pass.
\<close>

definition strncpy_s :: "char list \<Rightarrow> string \<Rightarrow> nat \<Rightarrow> fault + char list" where
  "strncpy_s dest src cnt =
     (let D = min cnt (length (c_str src)) in
      if D < length dest then Inr (take D (c_str src) @ NUL # drop (D + 1) dest)
      else Inl InvalidParameter)"

subsection \<open>Leaderboard store\<close>

record NetworkScore =
  "identifier" :: uint32_t
  name :: "char list"
  score :: uint32_t
  timestamp :: "char list"

record NetworkLeaderboard =
  scores :: "NetworkScore list"
  scoreCount :: nat

text \<open>
  The four assignments to \<^verbatim>\<open>entry\<close>, in the order of the source. A fault of either copy
  ends the run, so the order of the plain assignments around it is not observable.
\<close>

definition write_entry ::
  "config \<Rightarrow> uint32_t \<Rightarrow> string \<Rightarrow> uint32_t \<Rightarrow> string \<Rightarrow> NetworkScore \<Rightarrow> fault + NetworkScore" where
  "write_entry cfg ident nm sc ts entry =
     (case strncpy_s (name entry) nm (MAX_NAME_LENGTH cfg) of
        Inl f \<Rightarrow> Inl f
      | Inr name' \<Rightarrow>
          (case strncpy_s (timestamp entry) ts (TIME_FORMAT cfg) of
             Inl f \<Rightarrow> Inl f
           | Inr timestamp' \<Rightarrow>
               Inr (entry\<lparr>identifier := ident, name := name', score := sc,
                          timestamp := timestamp'\<rparr>)))"

text \<open>The comparison object handed to \<^verbatim>\<open>std::sort\<close>: \<^verbatim>\<open>lhs.score > rhs.score\<close>.\<close>

definition score_gt :: "NetworkScore \<Rightarrow> NetworkScore \<Rightarrow> bool" where
  "score_gt lhs rhs \<longleftrightarrow> score rhs < score lhs"

text \<open>
  \<^verbatim>\<open>std::sort\<close> is not stable, and the standard fixes only what every implementation
  achieves: the range is permuted, and afterwards no element compares before one that
  precedes it. The sort is therefore a parameter \<open>srt\<close> of the model, constrained by
  \<open>std_sort_ok\<close>; \<open>insertion_sort\<close> is one such implementation.
\<close>

definition std_sort_ok :: "(NetworkScore list \<Rightarrow> NetworkScore list) \<Rightarrow> bool" where
  "std_sort_ok srt \<longleftrightarrow>
     (\<forall>xs. mset (srt xs) = mset xs \<and> sorted_wrt (\<lambda>a b. \<not> score_gt b a) (srt xs))"

fun insert_desc :: "NetworkScore \<Rightarrow> NetworkScore list \<Rightarrow> NetworkScore list" where
  "insert_desc e [] = [e]"
| "insert_desc e (y # ys) = (if score_gt y e then y # insert_desc e ys else e # y # ys)"

fun insertion_sort :: "NetworkScore list \<Rightarrow> NetworkScore list" where
  "insertion_sort [] = []"
| "insertion_sort (e # es) = insert_desc e (insertion_sort es)"

text \<open>\<^verbatim>\<open>std::sort(arr, arr + n, comp)\<close> on an array: the first \<open>n\<close> elements are sorted in place.\<close>

definition sort_range ::
  "(NetworkScore list \<Rightarrow> NetworkScore list) \<Rightarrow> NetworkScore list \<Rightarrow> nat \<Rightarrow> fault + NetworkScore list" where
  "sort_range srt arr n =
     (if length arr < n then Inl OutOfBounds else Inr (srt (take n arr) @ drop n arr))"

definition AddScoreToLeaderboard ::
  "config \<Rightarrow> (NetworkScore list \<Rightarrow> NetworkScore list) \<Rightarrow> uint32_t \<Rightarrow> string \<Rightarrow> uint32_t \<Rightarrow> string
     \<Rightarrow> NetworkLeaderboard \<Rightarrow> fault + (bool \<times> NetworkLeaderboard)" where
  "AddScoreToLeaderboard cfg srt ident nm sc ts l =
     (if scoreCount l < MAX_LEADERBOARD_SCORES cfg then
        (let index = scoreCount l; count' = scoreCount l + 1 in
         if length (scores l) \<le> index then Inl OutOfBounds
         else
           (case write_entry cfg ident nm sc ts (scores l ! index) of
              Inl f \<Rightarrow> Inl f
            | Inr entry \<Rightarrow>
                (case sort_range srt ((scores l)[index := entry]) count' of
                   Inl f \<Rightarrow> Inl f
                 | Inr arr \<Rightarrow> Inr (True, l\<lparr>scores := arr, scoreCount := count'\<rparr>))))
      else
        (if MAX_LEADERBOARD_SCORES cfg = 0
            \<or> length (scores l) \<le> MAX_LEADERBOARD_SCORES cfg - 1 then Inl OutOfBounds
         else
           (let index = MAX_LEADERBOARD_SCORES cfg - 1 in
            if score (scores l ! index) < sc then
              (case write_entry cfg ident nm sc ts (scores l ! index) of
                 Inl f \<Rightarrow> Inl f
               | Inr entry \<Rightarrow>
                   (case sort_range srt ((scores l)[index := entry]) (scoreCount l) of
                      Inl f \<Rightarrow> Inl f
                    | Inr arr \<Rightarrow> Inr (True, l\<lparr>scores := arr\<rparr>)))
            else Inr (False, l))))"

text \<open>The live slice \<^verbatim>\<open>scores[0..scoreCount)\<close> and its order.\<close>

definition live :: "NetworkLeaderboard \<Rightarrow> NetworkScore list" where
  "live l = take (scoreCount l) (scores l)"

definition sorted_desc :: "NetworkScore list \<Rightarrow> bool" where
  "sorted_desc es \<longleftrightarrow> sorted_wrt (\<lambda>a b. score b \<le> score a) es"



text \<open>
  The texts both copies of \<open>write_entry\<close> accept in arrays of the declared sizes: what is
  to be stored, the first \<open>MAX_NAME_LENGTH\<close> (or \<open>TIME_FORMAT\<close>) characters, fits with its
  terminator.
\<close>

definition fits :: "config \<Rightarrow> string \<Rightarrow> string \<Rightarrow> bool" where
  "fits cfg nm ts \<longleftrightarrow>
     min (MAX_NAME_LENGTH cfg) (length (c_str nm)) < NAME_SIZE cfg \<and>
     min (TIME_FORMAT cfg) (length (c_str ts)) < TIMESTAMP_SIZE cfg"

text \<open>Every live entry holds a terminated name and a terminated timestamp.\<close>

definition texts_terminated :: "NetworkLeaderboard \<Rightarrow> bool" where
  "texts_terminated l \<longleftrightarrow> (\<forall>e \<in> set (live l). NUL \<in> set (name e) \<and> NUL \<in> set (timestamp e))"

subsection \<open>The top of the leaderboard as text\<close>

text \<open>\<^verbatim>\<open>operator<<\<close> on an unsigned integer in the classic locale: decimal digits, no grouping.\<close>

definition digit :: "nat \<Rightarrow> char" where
  "digit d = ''0123456789'' ! d"

function dec :: "nat \<Rightarrow> string" where
  "dec n = (if n < 10 then [digit n] else dec (n div 10) @ [digit (n mod 10)])"
  by pat_completeness auto
termination
  by (relation "measure (\<lambda>n. n)") auto

declare dec.simps [simp del]

text \<open>
  The line built in the loop body of \<^verbatim>\<open>GetTopPlayersFromLeaderboard\<close> for index \<open>x\<close>.
  \<open>x + 1\<close> does not wrap: \<open>x\<close> is below a 32-bit count.
\<close>

definition format_entry :: "nat \<Rightarrow> NetworkScore \<Rightarrow> fault + string" where
  "format_entry x e =
     (case read_c_str (name e) of
        Inl f \<Rightarrow> Inl f
      | Inr n \<Rightarrow>
          (case read_c_str (timestamp e) of
             Inl f \<Rightarrow> Inl f
           | Inr t \<Rightarrow>
               Inr (dec (x + 1) @ '') '' @ n @ '': '' @ dec (unat (score e)) @ '' ['' @ t @ '']'')))"

function top_loop :: "NetworkScore list \<Rightarrow> nat \<Rightarrow> nat \<Rightarrow> string list \<Rightarrow> fault + string list" where
  "top_loop arr cnt x topScores =
     (if x < cnt then
        (if length arr \<le> x then Inl OutOfBounds
         else
           (case format_entry x (arr ! x) of
              Inl f \<Rightarrow> Inl f
            | Inr line \<Rightarrow> top_loop arr cnt (x + 1) (topScores @ [line])))
      else Inr topScores)"
  by pat_completeness auto
termination
  by (relation "measure (\<lambda>(arr, cnt, x, topScores). cnt - x)") auto

declare top_loop.simps [simp del]

definition GetTopPlayersFromLeaderboard ::
  "uint32_t \<Rightarrow> NetworkLeaderboard \<Rightarrow> fault + (string list \<times> NetworkLeaderboard)" where
  "GetTopPlayersFromLeaderboard playerCount l =
     (let cnt = (if unat playerCount < scoreCount l then unat playerCount else scoreCount l) in
      case top_loop (scores l) cnt 0 [] of
        Inl f \<Rightarrow> Inl f
      | Inr topScores \<Rightarrow> Inr (topScores, l))"

subsection \<open>Persistence\<close>

text \<open>
  \<^verbatim>\<open>SaveLeaderboard\<close> and \<^verbatim>\<open>LoadLeaderboard\<close> reach the aggregate through
  \<^verbatim>\<open>reinterpret_cast<char*>(&leaderboard)\<close>, that is as its object representation: the
  \<^verbatim>\<open>sizeof(NetworkLeaderboard)\<close> bytes it occupies. They are modelled on that image.
  A file system gives the bytes of each file and says which paths a stream can open; a
  stream that opens transfers all the bytes it is asked to write.
\<close>

record file_system =
  file_data :: "string \<Rightarrow> char list option"
  opens_for_output :: "string \<Rightarrow> bool"
  opens_for_input :: "string \<Rightarrow> bool"

text \<open>\<^verbatim>\<open>std::ifstream file(filename, std::ios::binary)\<close>: the bytes to read, or no stream.\<close>

definition open_ifstream :: "file_system \<Rightarrow> string \<Rightarrow> char list option" where
  "open_ifstream fs filename = (if opens_for_input fs filename then file_data fs filename else None)"

text \<open>
  \<^verbatim>\<open>file.read(dst, n)\<close> stores the characters it extracts directly at \<open>dst\<close>: all \<open>n\<close> of
  them, or, when the file ends first, the ones there are (and sets the fail bit, which
  nothing tests).
\<close>

definition istream_read :: "char list \<Rightarrow> char list \<Rightarrow> char list" where
  "istream_read bytes img = take (length img) bytes @ drop (length bytes) img"

definition SaveLeaderboard :: "string \<Rightarrow> file_system \<Rightarrow> char list \<Rightarrow> file_system" where
  "SaveLeaderboard filename fs img =
     (if opens_for_output fs filename
      then fs\<lparr>file_data := (file_data fs)(filename \<mapsto> img)\<rparr>
      else fs)"

definition LoadLeaderboard :: "string \<Rightarrow> file_system \<Rightarrow> char list \<Rightarrow> char list" where
  "LoadLeaderboard filename fs img =
     (case open_ifstream fs filename of
        None \<Rightarrow> img
      | Some bytes \<Rightarrow> istream_read bytes img)"

subsection \<open>The object representation\<close>

text \<open>A 32-bit unsigned integer in memory, least significant byte first.\<close>

definition u32_of_bytes :: "char list \<Rightarrow> uint32_t" where
  "u32_of_bytes bs = of_nat (foldr (\<lambda>b n. of_char b + 256 * n) (take 4 bs) 0)"

definition bytes_of_u32 :: "uint32_t \<Rightarrow> char list" where
  "bytes_of_u32 w = map (\<lambda>i. char_of (unat w div 256 ^ i)) [0..<4]"

text \<open>
  Modelled from the spec: the layout of \<^verbatim>\<open>NetworkScore\<close> and \<^verbatim>\<open>NetworkLeaderboard\<close>, which
  \<^verbatim>\<open>NetworkGameState.h\<close> declares and the sources here do not contain. An entry is its
  identifier, name, score and timestamp in this order; the record is the entry count
  followed by the full backing array. Array sizes are taken to be multiples of four, so
  that no padding separates the fields.
\<close>

definition entry_size :: "config \<Rightarrow> nat" where
  "entry_size cfg = 4 + NAME_SIZE cfg + 4 + TIMESTAMP_SIZE cfg"

definition sizeof_NetworkLeaderboard :: "config \<Rightarrow> nat" where
  "sizeof_NetworkLeaderboard cfg = 4 + MAX_LEADERBOARD_SCORES cfg * entry_size cfg"

definition entry_of_bytes :: "config \<Rightarrow> char list \<Rightarrow> NetworkScore" where
  "entry_of_bytes cfg bs =
     \<lparr>identifier = u32_of_bytes bs,
      name = take (NAME_SIZE cfg) (drop 4 bs),
      score = u32_of_bytes (drop (4 + NAME_SIZE cfg) bs),
      timestamp = take (TIMESTAMP_SIZE cfg) (drop (8 + NAME_SIZE cfg) bs)\<rparr>"

definition leaderboard_of_bytes :: "config \<Rightarrow> char list \<Rightarrow> NetworkLeaderboard" where
  "leaderboard_of_bytes cfg img =
     \<lparr>scores = map (\<lambda>i. entry_of_bytes cfg (drop (4 + i * entry_size cfg) img))
                   [0..<MAX_LEADERBOARD_SCORES cfg],
      scoreCount = unat (u32_of_bytes img)\<rparr>"

subsection \<open>Concrete configurations and states\<close>

text \<open>
  A small configuration: two network objects, three leaderboard entries, character arrays
  of four elements that receive at most three characters.
\<close>

definition example_config :: config where
  "example_config =
     \<lparr>MAX_NETWORK_OBJECTS = 2, MAX_LEADERBOARD_SCORES = 3, MAX_NAME_LENGTH = 3, TIME_FORMAT = 3,
      NAME_SIZE = 4, TIMESTAMP_SIZE = 4\<rparr>"

definition still :: Transform where
  "still = \<lparr>position = AEVec2 0 0, velocity = AEVec2 0 0, scale = AEVec2 1 1\<rparr>"

definition one_object :: NetworkGameState where
  "one_object =
     \<lparr>objects = [\<lparr>NetworkObject.identifier = 1, transform = still\<rparr>,
                 \<lparr>NetworkObject.identifier = 0, transform = still\<rparr>],
      objectCount = 1\<rparr>"

definition two_objects :: NetworkGameState where
  "two_objects =
     \<lparr>objects = [\<lparr>NetworkObject.identifier = 1, transform = still\<rparr>,
                 \<lparr>NetworkObject.identifier = 2, transform = still\<rparr>],
      objectCount = 2\<rparr>"

definition mk_score :: "uint32_t \<Rightarrow> string \<Rightarrow> uint32_t \<Rightarrow> string \<Rightarrow> NetworkScore" where
  "mk_score ident nm sc ts =
     \<lparr>identifier = ident, name = nm @ replicate (4 - length nm) NUL, score = sc,
      timestamp = ts @ replicate (4 - length ts) NUL\<rparr>"

text \<open>The full table of the specification's example: scores 100, 80 and 50.\<close>

definition full_board :: NetworkLeaderboard where
  "full_board =
     \<lparr>scores = [mk_score 1 ''AL'' 100 ''t1'', mk_score 2 ''BO'' 80 ''t2'', mk_score 3 ''CY'' 50 ''t3''],
      scoreCount = 3\<rparr>"


text \<open>
  Object representations under a two-entry variant of the configuration: a sorted table
  (scores 9 and 5), a table of the same size whose count field says 5 and whose scores
  ascend (3, then 7), one with count 2 whose scores ascend (5, then 9), and a file that
  ends after the count field.
\<close>

definition small_config :: config where
  "small_config = example_config\<lparr>MAX_LEADERBOARD_SCORES := 2\<rparr>"

definition entry_bytes :: "nat \<Rightarrow> string \<Rightarrow> nat \<Rightarrow> string \<Rightarrow> char list" where
  "entry_bytes ident nm sc ts =
     bytes_of_u32 (of_nat ident) @ nm @ replicate (4 - length nm) NUL @
     bytes_of_u32 (of_nat sc) @ ts @ replicate (4 - length ts) NUL"

definition sorted_img :: "char list" where
  "sorted_img = bytes_of_u32 2 @ entry_bytes 1 ''AL'' 9 ''t1'' @ entry_bytes 2 ''BO'' 5 ''t2''"

definition crafted_img :: "char list" where
  "crafted_img = bytes_of_u32 5 @ entry_bytes 3 ''CY'' 3 ''t3'' @ entry_bytes 4 ''DI'' 7 ''t4''"

definition unsorted_img :: "char list" where
  "unsorted_img = bytes_of_u32 2 @ entry_bytes 3 ''CY'' 5 ''t3'' @ entry_bytes 4 ''DI'' 9 ''t4''"

definition short_file :: "char list" where
  "short_file = bytes_of_u32 1"

definition disk :: "char list \<Rightarrow> file_system" where
  "disk bytes =
     \<lparr>file_data = (\<lambda>p. if p = ''scores.dat'' then Some bytes else None),
      opens_for_output = (\<lambda>p. p = ''scores.dat''),
      opens_for_input = (\<lambda>p. True)\<rparr>"

section \<open>Properties of the game state store\<close>

subsection \<open>The scan\<close>

lemma interval_split:
  "x < i \<Longrightarrow> (\<forall>j. x \<le> j \<and> j < i \<longrightarrow> P j) \<longleftrightarrow> (P x \<and> (\<forall>j. Suc x \<le> j \<and> j < i \<longrightarrow> P j))"
  by (auto simp: Suc_le_eq dest: le_neq_implies_less)

lemma scan_objects_step:
  "x < cnt \<Longrightarrow> x < length objs \<Longrightarrow> NetworkObject.identifier (objs ! x) \<noteq> ident \<Longrightarrow>
   scan_objects objs cnt ident x = scan_objects objs cnt ident (Suc x)"
  by (subst scan_objects.simps) simp

lemma scan_objects_Some:
  "scan_objects objs cnt ident x = Inr (Some i) \<longleftrightarrow>
     x \<le> i \<and> i < cnt \<and> i < length objs \<and> NetworkObject.identifier (objs ! i) = ident \<and>
     (\<forall>j. x \<le> j \<and> j < i \<longrightarrow> NetworkObject.identifier (objs ! j) \<noteq> ident)"
proof (induction objs cnt ident x rule: scan_objects.induct)
  case (1 objs cnt ident x)
  show ?case
  proof (cases "x < cnt \<and> x < length objs \<and> NetworkObject.identifier (objs ! x) \<noteq> ident")
    case True
    have ih: "(scan_objects objs cnt ident (Suc x) = Inr (Some i)) =
       (Suc x \<le> i \<and> i < cnt \<and> i < length objs \<and> NetworkObject.identifier (objs ! i) = ident \<and>
        (\<forall>j. Suc x \<le> j \<and> j < i \<longrightarrow> NetworkObject.identifier (objs ! j) \<noteq> ident))"
      using 1 True by simp
    show ?thesis
    proof (cases "x < i")
      case lt: True
      then show ?thesis
        using True ih by (simp add: scan_objects_step interval_split Suc_le_eq less_imp_le)
    next
      case ge: False
      then have "\<not> Suc x \<le> i" by simp
      moreover have "\<not> (x \<le> i \<and> NetworkObject.identifier (objs ! i) = ident)"
        using ge True by (cases "x = i") auto
      ultimately show ?thesis
        using True ih by (auto simp: scan_objects_step)
    qed
  next
    case False
    then show ?thesis
      by (subst scan_objects.simps) (auto simp: not_less)
  qed
qed

lemma scan_objects_None:
  "scan_objects objs cnt ident x = Inr None \<longleftrightarrow>
     (\<forall>j. x \<le> j \<and> j < cnt \<longrightarrow> j < length objs \<and> NetworkObject.identifier (objs ! j) \<noteq> ident)"
proof (induction objs cnt ident x rule: scan_objects.induct)
  case (1 objs cnt ident x)
  show ?case
  proof (cases "x < cnt \<and> x < length objs \<and> NetworkObject.identifier (objs ! x) \<noteq> ident")
    case True
    then show ?thesis
      using 1 by (simp add: scan_objects_step interval_split)
  next
    case False
    then show ?thesis
      by (subst scan_objects.simps) (auto simp: not_less)
  qed
qed

lemma scan_objects_Inl:
  "scan_objects objs cnt ident x = Inl f \<Longrightarrow> length objs < cnt"
proof (induction objs cnt ident x rule: scan_objects.induct)
  case (1 objs cnt ident x)
  show ?case
  proof (cases "x < cnt \<and> x < length objs \<and> NetworkObject.identifier (objs ! x) \<noteq> ident")
    case True
    then show ?thesis using 1 by (simp add: scan_objects_step)
  next
    case False
    then show ?thesis
      using "1.prems" by (subst (asm) scan_objects.simps) (auto simp: not_less split: if_splits)
  qed
qed

lemma live_ids_iff:
  assumes "objectCount s \<le> length (objects s)"
  shows "ident \<in> set (live_ids s) \<longleftrightarrow>
           (\<exists>j<objectCount s. NetworkObject.identifier (objects s ! j) = ident)"
proof
  assume "ident \<in> set (live_ids s)"
  then obtain obj where obj: "obj \<in> set (take (objectCount s) (objects s))"
      "NetworkObject.identifier obj = ident"
    by (auto simp: live_ids_def)
  then obtain j where "j < length (take (objectCount s) (objects s))"
      "take (objectCount s) (objects s) ! j = obj"
    by (auto simp: in_set_conv_nth)
  then show "\<exists>j<objectCount s. NetworkObject.identifier (objects s ! j) = ident"
    using obj by auto
next
  note le = assms
  assume "\<exists>j<objectCount s. NetworkObject.identifier (objects s ! j) = ident"
  then obtain j where j: "j < objectCount s" "NetworkObject.identifier (objects s ! j) = ident"
    by blast
  then have "take (objectCount s) (objects s) ! j \<in> set (take (objectCount s) (objects s))"
    using le by (intro nth_mem) simp
  then have "objects s ! j \<in> set (take (objectCount s) (objects s))"
    using j by simp
  then show "ident \<in> set (live_ids s)"
    using j unfolding live_ids_def by force
qed

lemma Transform_overwrite:
  "(t :: Transform)\<lparr>position := pos, velocity := vel, scale := scl\<rparr> =
     \<lparr>position = pos, velocity = vel, scale = scl\<rparr>"
  by (cases t) simp

lemma NetworkObject_overwrite:
  "(obj :: NetworkObject)\<lparr>NetworkObject.identifier := ident, transform := t\<rparr> =
     \<lparr>NetworkObject.identifier = ident, transform = t\<rparr>"
  by (cases obj) simp

lemma SetNetworkObject_found:
  assumes "objectCount s \<le> length (objects s)" and "ident \<in> set (live_ids s)"
  shows "\<exists>i<objectCount s. NetworkObject.identifier (objects s ! i) = ident \<and>
           (\<forall>j<i. NetworkObject.identifier (objects s ! j) \<noteq> ident) \<and>
           SetNetworkObject cfg ident pos vel scl s =
             Inr (True, s\<lparr>objects := (objects s)[i := (objects s ! i)\<lparr>transform :=
               \<lparr>position = pos, velocity = vel, scale = scl\<rparr>\<rparr>]\<rparr>)"
proof -
  obtain k where k: "k < objectCount s" "NetworkObject.identifier (objects s ! k) = ident"
    using assms by (auto simp: live_ids_iff)
  show ?thesis
  proof (cases "scan_objects (objects s) (objectCount s) ident 0")
    case (Inl f)
    then show ?thesis using scan_objects_Inl assms(1) by fastforce
  next
    case (Inr r)
    show ?thesis
    proof (cases r)
      case None
      then show ?thesis using Inr k by (simp add: scan_objects_None)
    next
      case (Some i)
      then have i: "i < objectCount s" "NetworkObject.identifier (objects s ! i) = ident"
        "\<forall>j<i. NetworkObject.identifier (objects s ! j) \<noteq> ident"
        using Inr by (simp_all add: scan_objects_Some)
      have "SetNetworkObject cfg ident pos vel scl s =
             Inr (True, s\<lparr>objects := (objects s)[i := (objects s ! i)\<lparr>transform :=
               \<lparr>position = pos, velocity = vel, scale = scl\<rparr>\<rparr>]\<rparr>)"
        using Inr Some by (simp add: SetNetworkObject_def set_transform_def Transform_overwrite)
      then show ?thesis using i by blast
    qed
  qed
qed

lemma SetNetworkObject_absent:
  assumes "objectCount s \<le> length (objects s)" and "ident \<notin> set (live_ids s)"
  shows "SetNetworkObject cfg ident pos vel scl s =
    (if objectCount s < MAX_NETWORK_OBJECTS cfg then
       (if length (objects s) \<le> objectCount s then Inl OutOfBounds
        else Inr (True, s\<lparr>objects := (objects s)[objectCount s :=
               \<lparr>NetworkObject.identifier = ident, transform = \<lparr>position = pos, velocity = vel, scale = scl\<rparr>\<rparr>],
             objectCount := objectCount s + 1\<rparr>))
     else Inr (False, s))"
proof -
  have "scan_objects (objects s) (objectCount s) ident 0 = Inr None"
    using assms by (auto simp: scan_objects_None live_ids_iff)
  then show ?thesis
    by (simp add: SetNetworkObject_def set_transform_def Let_def Transform_overwrite NetworkObject_overwrite)
qed


subsection \<open>Upsert\<close>

text \<open>
  Claim C3. \<^verbatim>\<open>SetNetworkObject\<close> is an upsert. In a state of the declared shape: when a
  live object carries the identifier, the first such object gets the new transform in place,
  nothing else changes and the result is true, whether or not the table is full; when no
  live object carries it and the count is below \<open>MAX_NETWORK_OBJECTS\<close>, the entry is
  written at index \<open>objectCount\<close>, the count grows by one and the result is true; when no
  live object carries it and the count equals \<open>MAX_NETWORK_OBJECTS\<close>, the result is false
  and the state is the one before.
\<close>

theorem SetNetworkObject_upsert:
  assumes "gs_wf cfg s"
  shows "(ident \<in> set (live_ids s) \<longrightarrow>
            (\<exists>i<objectCount s. NetworkObject.identifier (objects s ! i) = ident \<and>
               (\<forall>j<i. NetworkObject.identifier (objects s ! j) \<noteq> ident) \<and>
               SetNetworkObject cfg ident pos vel scl s =
                 Inr (True, s\<lparr>objects := (objects s)[i := (objects s ! i)\<lparr>transform :=
                   \<lparr>position = pos, velocity = vel, scale = scl\<rparr>\<rparr>]\<rparr>)))
       \<and> (ident \<notin> set (live_ids s) \<and> objectCount s < MAX_NETWORK_OBJECTS cfg \<longrightarrow>
            SetNetworkObject cfg ident pos vel scl s =
              Inr (True, s\<lparr>objects := (objects s)[objectCount s :=
                  \<lparr>NetworkObject.identifier = ident, transform = \<lparr>position = pos, velocity = vel, scale = scl\<rparr>\<rparr>],
                objectCount := objectCount s + 1\<rparr>))
       \<and> (ident \<notin> set (live_ids s) \<and> objectCount s = MAX_NETWORK_OBJECTS cfg \<longrightarrow>
            SetNetworkObject cfg ident pos vel scl s = Inr (False, s))"
proof -
  have le: "objectCount s \<le> length (objects s)" and len: "length (objects s) = MAX_NETWORK_OBJECTS cfg"
    using assms by (simp_all add: gs_wf_def)
  show ?thesis
    using SetNetworkObject_found [OF le, of ident cfg pos vel scl]
      SetNetworkObject_absent [OF le, of ident cfg pos vel scl] len
    by auto
qed

theorem SetNetworkObject_upsert_witness:
  "gs_wf example_config one_object \<and> gs_wf example_config two_objects
   \<and> 1 \<in> set (live_ids two_objects)
   \<and> SetNetworkObject example_config 1 (AEVec2 7 8) (AEVec2 3 4) (AEVec2 5 6) two_objects =
       Inr (True, two_objects\<lparr>objects := (objects two_objects)[0 :=
         \<lparr>NetworkObject.identifier = 1,
          transform = \<lparr>position = AEVec2 7 8, velocity = AEVec2 3 4, scale = AEVec2 5 6\<rparr>\<rparr>]\<rparr>)
   \<and> 2 \<notin> set (live_ids one_object) \<and> objectCount one_object < MAX_NETWORK_OBJECTS example_config
   \<and> SetNetworkObject example_config 2 (AEVec2 7 8) (AEVec2 3 4) (AEVec2 5 6) one_object =
       Inr (True, one_object\<lparr>objects := (objects one_object)[1 :=
         \<lparr>NetworkObject.identifier = 2,
          transform = \<lparr>position = AEVec2 7 8, velocity = AEVec2 3 4, scale = AEVec2 5 6\<rparr>\<rparr>],
         objectCount := 2\<rparr>)
   \<and> 3 \<notin> set (live_ids two_objects) \<and> objectCount two_objects = MAX_NETWORK_OBJECTS example_config
   \<and> SetNetworkObject example_config 3 (AEVec2 7 8) (AEVec2 3 4) (AEVec2 5 6) two_objects =
       Inr (False, two_objects)"
proof -
  have wf1: "gs_wf example_config one_object" and wf2: "gs_wf example_config two_objects"
    by (simp_all add: gs_wf_def example_config_def one_object_def two_objects_def)
  have ids: "live_ids one_object = [1]" "live_ids two_objects = [1, 2]"
    by (simp_all add: live_ids_def one_object_def two_objects_def)
  have cnt: "objectCount one_object = 1" "objectCount two_objects = 2"
    "MAX_NETWORK_OBJECTS example_config = 2"
    by (simp_all add: one_object_def two_objects_def example_config_def)
  have hit: "SetNetworkObject example_config 1 (AEVec2 7 8) (AEVec2 3 4) (AEVec2 5 6) two_objects =
       Inr (True, two_objects\<lparr>objects := (objects two_objects)[0 :=
         \<lparr>NetworkObject.identifier = 1,
          transform = \<lparr>position = AEVec2 7 8, velocity = AEVec2 3 4, scale = AEVec2 5 6\<rparr>\<rparr>]\<rparr>)"
  proof -
    obtain i where i: "\<forall>j<i. NetworkObject.identifier (objects two_objects ! j) \<noteq> 1"
      and res: "SetNetworkObject example_config 1 (AEVec2 7 8) (AEVec2 3 4) (AEVec2 5 6) two_objects =
        Inr (True, two_objects\<lparr>objects := (objects two_objects)[i :=
          (objects two_objects ! i)\<lparr>transform :=
             \<lparr>position = AEVec2 7 8, velocity = AEVec2 3 4, scale = AEVec2 5 6\<rparr>\<rparr>]\<rparr>)"
      using SetNetworkObject_upsert [OF wf2, of 1 "AEVec2 7 8" "AEVec2 3 4" "AEVec2 5 6"]
      by (auto simp: ids)
    have first: "NetworkObject.identifier (objects two_objects ! 0) = 1"
      by (simp add: two_objects_def)
    have "i = 0"
      using i first by (cases "i = 0") auto
    then show ?thesis
      using res by (simp add: two_objects_def)
  qed
  show ?thesis
    using wf1 wf2 hit
      SetNetworkObject_upsert [OF wf1, of 2 "AEVec2 7 8" "AEVec2 3 4" "AEVec2 5 6"]
      SetNetworkObject_upsert [OF wf2, of 3 "AEVec2 7 8" "AEVec2 3 4" "AEVec2 5 6"]
    by (simp add: ids cnt)
qed

subsection \<open>Round trip\<close>

text \<open>
  Claim C4. After a \<^verbatim>\<open>SetNetworkObject\<close> that returned true, \<^verbatim>\<open>GetNetworkObject\<close> with the
  same identifier returns true and hands out exactly the position, velocity and scale that
  were written, from any state and for any identifier.
\<close>

theorem SetNetworkObject_then_Get:
  assumes "SetNetworkObject cfg ident pos vel scl s = Inr (True, s')"
  shows "GetNetworkObject ident outs s' = Inr (True, (pos, vel, scl))"
proof (cases "scan_objects (objects s) (objectCount s) ident 0")
  case (Inl f)
  then show ?thesis using assms by (simp add: SetNetworkObject_def)
next
  case (Inr r)
  show ?thesis
  proof (cases r)
    case (Some i)
    then have s': "s' = s\<lparr>objects := (objects s)[i := set_transform pos vel scl (objects s ! i)]\<rparr>"
      using assms Inr by (simp add: SetNetworkObject_def)
    have i: "i < objectCount s" "i < length (objects s)"
      "NetworkObject.identifier (objects s ! i) = ident"
      "\<forall>j<i. NetworkObject.identifier (objects s ! j) \<noteq> ident"
      using Inr Some by (simp_all add: scan_objects_Some)
    have "scan_objects (objects s') (objectCount s') ident 0 = Inr (Some i)"
      using i by (simp add: s' scan_objects_Some set_transform_def)
    then show ?thesis
      using i by (simp add: GetNetworkObject_def s' set_transform_def)
  next
    case None
    then have absent: "\<forall>j<objectCount s. j < length (objects s) \<and>
        NetworkObject.identifier (objects s ! j) \<noteq> ident"
      using Inr by (simp add: scan_objects_None)
    have room: "objectCount s < MAX_NETWORK_OBJECTS cfg" "objectCount s < length (objects s)"
      using assms Inr None by (auto simp: SetNetworkObject_def Let_def split: if_splits)
    define n where "n = objectCount s"
    have s': "s' = s\<lparr>objects := (objects s)[n :=
                 set_transform pos vel scl ((objects s ! n)\<lparr>NetworkObject.identifier := ident\<rparr>)],
               objectCount := n + 1\<rparr>"
      using assms Inr None room by (simp add: SetNetworkObject_def Let_def n_def)
    have "scan_objects (objects s') (objectCount s') ident 0 = Inr (Some n)"
      using absent room by (simp add: s' scan_objects_Some set_transform_def n_def)
    then show ?thesis
      using room by (simp add: GetNetworkObject_def s' set_transform_def n_def)
  qed
qed

theorem SetNetworkObject_then_Get_witness:
  "SetNetworkObject example_config 2 (AEVec2 7 8) (AEVec2 3 4) (AEVec2 5 6) one_object =
     Inr (True, one_object\<lparr>objects := (objects one_object)[1 :=
         \<lparr>NetworkObject.identifier = 2,
          transform = \<lparr>position = AEVec2 7 8, velocity = AEVec2 3 4, scale = AEVec2 5 6\<rparr>\<rparr>],
         objectCount := 2\<rparr>)
   \<and> GetNetworkObject 2 (AEVec2 0 0, AEVec2 0 0, AEVec2 0 0)
        (one_object\<lparr>objects := (objects one_object)[1 :=
         \<lparr>NetworkObject.identifier = 2,
          transform = \<lparr>position = AEVec2 7 8, velocity = AEVec2 3 4, scale = AEVec2 5 6\<rparr>\<rparr>],
         objectCount := 2\<rparr>) = Inr (True, (AEVec2 7 8, AEVec2 3 4, AEVec2 5 6))"
proof -
  have ids: "live_ids one_object = [1]"
    by (simp add: live_ids_def one_object_def)
  have set: "SetNetworkObject example_config 2 (AEVec2 7 8) (AEVec2 3 4) (AEVec2 5 6) one_object =
     Inr (True, one_object\<lparr>objects := (objects one_object)[1 :=
         \<lparr>NetworkObject.identifier = 2,
          transform = \<lparr>position = AEVec2 7 8, velocity = AEVec2 3 4, scale = AEVec2 5 6\<rparr>\<rparr>],
         objectCount := 2\<rparr>)"
    using SetNetworkObject_absent [of one_object 2 example_config "AEVec2 7 8" "AEVec2 3 4" "AEVec2 5 6"]
    by (simp add: ids) (simp add: one_object_def example_config_def)
  show ?thesis
    using set SetNetworkObject_then_Get [OF set, of "(AEVec2 0 0, AEVec2 0 0, AEVec2 0 0)"]
    by simp
qed

section \<open>Properties of the leaderboard store\<close>

subsection \<open>String copy and sorting\<close>




lemma strncpy_s_Inl:
  "strncpy_s dest src n = Inl f \<Longrightarrow> f = InvalidParameter \<and> length dest \<le> min n (length (c_str src))"
  by (auto simp: strncpy_s_def Let_def split: if_splits)


lemma mset_insert_desc: "mset (insert_desc e es) = add_mset e (mset es)"
  by (induction es) auto

lemma mset_insertion_sort: "mset (insertion_sort es) = mset es"
  by (induction es) (auto simp: mset_insert_desc)

lemma set_insert_desc: "set (insert_desc e es) = insert e (set es)"
  by (induction es) auto

lemma sorted_insert_desc:
  "sorted_wrt (\<lambda>a b. \<not> score_gt b a) es \<Longrightarrow> sorted_wrt (\<lambda>a b. \<not> score_gt b a) (insert_desc e es)"
  by (induction es) (auto simp: set_insert_desc score_gt_def)

lemma sorted_insertion_sort: "sorted_wrt (\<lambda>a b. \<not> score_gt b a) (insertion_sort es)"
  by (induction es) (auto simp: sorted_insert_desc)

lemma std_sort_ok_insertion_sort: "std_sort_ok insertion_sort"
  by (simp add: std_sort_ok_def mset_insertion_sort sorted_insertion_sort)

lemma std_sort_ok_mset: "std_sort_ok srt \<Longrightarrow> mset (srt xs) = mset xs"
  by (simp add: std_sort_ok_def)

lemma std_sort_ok_length: "std_sort_ok srt \<Longrightarrow> length (srt xs) = length xs"
  using std_sort_ok_mset [of srt xs] mset_eq_length by blast


lemma std_sort_ok_sorted: "std_sort_ok srt \<Longrightarrow> sorted_desc (srt xs)"
proof -
  assume "std_sort_ok srt"
  then have "sorted_wrt (\<lambda>a b. \<not> score_gt b a) (srt xs)"
    by (simp add: std_sort_ok_def)
  moreover have "(\<lambda>a b. \<not> score_gt b a) = (\<lambda>a b. score b \<le> score a)"
    by (auto simp: score_gt_def fun_eq_iff)
  ultimately show ?thesis by (simp add: sorted_desc_def)
qed

lemma sort_range_Inr:
  assumes "std_sort_ok srt" and "sort_range srt arr n = Inr arr'"
  shows "n \<le> length arr" and "length arr' = length arr"
    and "take n arr' = srt (take n arr)" and "drop n arr' = drop n arr"
proof -
  show n: "n \<le> length arr" and "length arr' = length arr"
    using assms by (auto simp: sort_range_def std_sort_ok_length split: if_splits)
  have eq: "arr' = srt (take n arr) @ drop n arr"
    using assms by (auto simp: sort_range_def split: if_splits)
  have len: "length (srt (take n arr)) = n"
    using assms(1) n by (simp add: std_sort_ok_length)
  show "take n arr' = srt (take n arr)" and "drop n arr' = drop n arr"
    using len by (simp_all add: eq)
qed



lemma write_entry_Inl:
  assumes "write_entry cfg ident nm sc ts entry = Inl f"
    and "length (name entry) = NAME_SIZE cfg" and "length (timestamp entry) = TIMESTAMP_SIZE cfg"
  shows "f = InvalidParameter \<and> \<not> fits cfg nm ts"
  using assms by (auto simp: write_entry_def fits_def split: sum.splits dest!: strncpy_s_Inl)





lemma AddScoreToLeaderboard_True:
  assumes "AddScoreToLeaderboard cfg srt ident nm sc ts l = Inr (True, l')"
  shows "\<exists>arr. sort_range srt arr (scoreCount l') = Inr (scores l')"
  using assms
  by (auto simp: AddScoreToLeaderboard_def Let_def split: if_splits sum.splits)




subsection \<open>Evaluation on the concrete boards\<close>

lemma replicate_num: "replicate (numeral k) x = x # replicate (pred_numeral k) x"
  by (simp add: numeral_eq_Suc)

lemma example_sizes:
  "MAX_LEADERBOARD_SCORES example_config = 3" "MAX_NAME_LENGTH example_config = 3"
  "TIME_FORMAT example_config = 3" "NAME_SIZE example_config = 4" "TIMESTAMP_SIZE example_config = 4"
  "MAX_NETWORK_OBJECTS example_config = 2"
  by (simp_all add: example_config_def)




lemma add_60: "AddScoreToLeaderboard example_config insertion_sort 9 ''X'' 60 ''ts'' full_board =
   Inr (True, \<lparr>scores = [mk_score 1 ''AL'' 100 ''t1'', mk_score 2 ''BO'' 80 ''t2'', mk_score 9 ''X'' 60 ''ts''],
      scoreCount = 3\<rparr>)"
  by (simp add: AddScoreToLeaderboard_def example_sizes full_board_def mk_score_def write_entry_def
      strncpy_s_def c_str_def NUL_def sort_range_def score_gt_def Let_def replicate_num)

subsection \<open>Admission at full capacity\<close>



subsection \<open>Copying the name and the timestamp\<close>



section \<open>Properties of persistence\<close>

subsection \<open>The object representation of the concrete tables\<close>

lemma le_bytes_sum:
  fixes n :: nat
  assumes "n < 4294967296"
  shows "n mod 256 + 256 * (n div 256 mod 256 + 256 * (n div 65536 mod 256 + 256 * (n div 16777216 mod 256))) = n"
proof -
  have a: "n mod 65536 = 256 * (n div 256 mod 256) + n mod 256"
    using mod_mult2_eq [of n 256 256] by simp
  have b: "n mod 16777216 = 65536 * (n div 65536 mod 256) + n mod 65536"
    using mod_mult2_eq [of n 65536 256] by simp
  have c: "n mod 4294967296 = 16777216 * (n div 16777216 mod 256) + n mod 16777216"
    using mod_mult2_eq [of n 16777216 256] by simp
  have "n mod 4294967296 = n" using assms by simp
  then show ?thesis using a b c by simp
qed

lemma length_bytes_of_u32: "length (bytes_of_u32 w) = 4"
  by (simp add: bytes_of_u32_def)

lemma bytes_of_u32_eq:
  "bytes_of_u32 w = [char_of (unat w), char_of (unat w div 256), char_of (unat w div 65536),
                     char_of (unat w div 16777216)]"
proof -
  have "[0..<4] = [0..<Suc (Suc (Suc (Suc 0)))]"
    by (simp add: numeral_eq_Suc)
  then have "[0..<4] = [0, Suc 0, Suc (Suc 0), Suc (Suc (Suc 0))]"
    by simp
  then show ?thesis
    by (simp add: bytes_of_u32_def)
qed

lemma u32_of_bytes_of_u32: "u32_of_bytes (bytes_of_u32 w @ rest) = w"
proof -
  have "unat w < 4294967296"
    using unsigned_less [of w, where 'a = nat] by simp
  then have "unat w mod 256 + 256 * (unat w div 256 mod 256 + 256 * (unat w div 65536 mod 256
        + 256 * (unat w div 16777216 mod 256))) = unat w"
    by (rule le_bytes_sum)
  moreover have "foldr (\<lambda>b n. of_char b + 256 * n) (take 4 (bytes_of_u32 w @ rest)) 0 =
      unat w mod 256 + 256 * (unat w div 256 mod 256 + 256 * (unat w div 65536 mod 256
        + 256 * (unat w div 16777216 mod 256)))"
    by (simp add: bytes_of_u32_eq)
  ultimately have "foldr (\<lambda>b n. of_char b + 256 * n) (take 4 (bytes_of_u32 w @ rest)) 0 = unat w"
    by (simp only:)
  then have "u32_of_bytes (bytes_of_u32 w @ rest) = of_nat (unat w)"
    by (simp only: u32_of_bytes_def)
  then show ?thesis by simp
qed

lemma small_sizes:
  "MAX_LEADERBOARD_SCORES small_config = 2" "NAME_SIZE small_config = 4"
  "TIMESTAMP_SIZE small_config = 4" "entry_size small_config = 16"
  "sizeof_NetworkLeaderboard small_config = 36"
  by (simp_all add: small_config_def example_config_def entry_size_def sizeof_NetworkLeaderboard_def)

lemma length_entry_bytes:
  "length nm \<le> 4 \<Longrightarrow> length ts \<le> 4 \<Longrightarrow> length (entry_bytes i nm s ts) = 16"
  by (simp add: entry_bytes_def length_bytes_of_u32)

lemma entry_of_entry_bytes:
  assumes "length nm \<le> 4" and "length ts \<le> 4"
  shows "entry_of_bytes small_config (entry_bytes i nm s ts @ rest) = mk_score (of_nat i) nm (of_nat s) ts"
proof -
  define pn where "pn = nm @ replicate (4 - length nm) NUL"
  define pt where "pt = ts @ replicate (4 - length ts) NUL"
  have ln: "length pn = 4" and lt: "length pt = 4"
    using assms by (simp_all add: pn_def pt_def)
  have eb: "entry_bytes i nm s ts @ rest =
      bytes_of_u32 (of_nat i) @ pn @ bytes_of_u32 (of_nat s) @ pt @ rest"
    by (simp add: entry_bytes_def pn_def pt_def)
  have "u32_of_bytes (entry_bytes i nm s ts @ rest) = of_nat i"
    unfolding eb by (rule u32_of_bytes_of_u32)
  moreover have "take 4 (drop 4 (entry_bytes i nm s ts @ rest)) = pn"
    unfolding eb by (simp add: length_bytes_of_u32 ln)
  moreover have "drop 8 (entry_bytes i nm s ts @ rest) = bytes_of_u32 (of_nat s) @ pt @ rest"
    unfolding eb by (simp add: length_bytes_of_u32 ln)
  moreover have "take 4 (drop 12 (entry_bytes i nm s ts @ rest)) = pt"
    unfolding eb by (simp add: length_bytes_of_u32 ln lt)
  ultimately show ?thesis
    by (simp add: entry_of_bytes_def small_sizes mk_score_def pn_def pt_def u32_of_bytes_of_u32)
qed

lemma leaderboard_of_two_entries:
  assumes "length n1 \<le> 4" "length t1 \<le> 4" "length n2 \<le> 4" "length t2 \<le> 4"
  shows "leaderboard_of_bytes small_config
           (bytes_of_u32 c @ entry_bytes i1 n1 s1 t1 @ entry_bytes i2 n2 s2 t2) =
         \<lparr>scores = [mk_score (of_nat i1) n1 (of_nat s1) t1, mk_score (of_nat i2) n2 (of_nat s2) t2],
          scoreCount = unat c\<rparr>"
proof -
  have two: "[0..<2] = [0, Suc 0]"
    by (simp add: numeral_2_eq_2)
  have e1: "entry_of_bytes small_config (entry_bytes i1 n1 s1 t1 @ entry_bytes i2 n2 s2 t2) =
      mk_score (of_nat i1) n1 (of_nat s1) t1"
    using assms(1,2) by (rule entry_of_entry_bytes)
  have e2: "entry_of_bytes small_config (entry_bytes i2 n2 s2 t2) = mk_score (of_nat i2) n2 (of_nat s2) t2"
    using entry_of_entry_bytes [OF assms(3,4), of i2 s2 "[]"] by simp
  have d0: "drop 4 (bytes_of_u32 c @ entry_bytes i1 n1 s1 t1 @ entry_bytes i2 n2 s2 t2) =
      entry_bytes i1 n1 s1 t1 @ entry_bytes i2 n2 s2 t2"
    by (simp add: length_bytes_of_u32)
  have d1: "drop 20 (bytes_of_u32 c @ entry_bytes i1 n1 s1 t1 @ entry_bytes i2 n2 s2 t2) =
      entry_bytes i2 n2 s2 t2"
    using assms by (simp add: length_bytes_of_u32 length_entry_bytes)
  show ?thesis
    by (simp add: leaderboard_of_bytes_def small_sizes two d0 d1 e1 e2 u32_of_bytes_of_u32
        del: drop_append)
qed

lemma open_disk: "open_ifstream (disk bytes) ''scores.dat'' = Some bytes"
  by (simp add: open_ifstream_def disk_def)

lemma LoadLeaderboard_full_file:
  assumes "open_ifstream fs filename = Some bytes" and "length img \<le> length bytes"
  shows "LoadLeaderboard filename fs img = take (length img) bytes"
  using assms by (simp add: LoadLeaderboard_def istream_read_def)

lemma LoadLeaderboard_short_file:
  assumes "open_ifstream fs filename = Some bytes" and "length bytes < length img"
  shows "LoadLeaderboard filename fs img = bytes @ drop (length bytes) img"
  using assms by (simp add: LoadLeaderboard_def istream_read_def)

lemma length_imgs: "length sorted_img = 36" "length crafted_img = 36" "length unsorted_img = 36"
  "length short_file = 4"
  by (simp_all add: sorted_img_def crafted_img_def unsorted_img_def short_file_def
      length_bytes_of_u32 length_entry_bytes)

lemma view_sorted_img: "leaderboard_of_bytes small_config sorted_img =
    \<lparr>scores = [mk_score 1 ''AL'' 9 ''t1'', mk_score 2 ''BO'' 5 ''t2''], scoreCount = 2\<rparr>"
  unfolding sorted_img_def by (subst leaderboard_of_two_entries) simp_all

lemma view_unsorted_img: "leaderboard_of_bytes small_config unsorted_img =
    \<lparr>scores = [mk_score 3 ''CY'' 5 ''t3'', mk_score 4 ''DI'' 9 ''t4''], scoreCount = 2\<rparr>"
  unfolding unsorted_img_def by (subst leaderboard_of_two_entries) simp_all

lemma view_crafted_img: "leaderboard_of_bytes small_config crafted_img =
    \<lparr>scores = [mk_score 3 ''CY'' 3 ''t3'', mk_score 4 ''DI'' 7 ''t4''], scoreCount = 5\<rparr>"
  unfolding crafted_img_def by (subst leaderboard_of_two_entries) simp_all

lemma load_short_file:
  "LoadLeaderboard ''scores.dat'' (disk short_file) sorted_img =
     bytes_of_u32 1 @ entry_bytes 1 ''AL'' 9 ''t1'' @ entry_bytes 2 ''BO'' 5 ''t2''"
  using LoadLeaderboard_short_file [OF open_disk, of short_file sorted_img]
  by (simp add: length_imgs) (simp add: short_file_def sorted_img_def length_bytes_of_u32)

lemma sorted_desc_two: "sorted_desc [a, b] \<longleftrightarrow> score b \<le> score a"
  by (simp add: sorted_desc_def)

subsection \<open>Loading\<close>

text \<open>
  Claim C5, as stated, fails on a short file: \<^verbatim>\<open>file.read\<close> stores what the file has
  directly in the leaderboard. A file that ends after the count field replaces the count
  (2 becomes 1) and leaves the entries of the old table: the result is neither the old
  leaderboard nor the file's contents.
\<close>

theorem LoadLeaderboard_atomic_counterexample:
  "open_ifstream (disk short_file) ''scores.dat'' = Some short_file
   \<and> length short_file < length sorted_img
   \<and> LoadLeaderboard ''scores.dat'' (disk short_file) sorted_img \<noteq> sorted_img
   \<and> LoadLeaderboard ''scores.dat'' (disk short_file) sorted_img \<noteq> short_file
   \<and> scoreCount (leaderboard_of_bytes small_config sorted_img) = 2
   \<and> scoreCount (leaderboard_of_bytes small_config
         (LoadLeaderboard ''scores.dat'' (disk short_file) sorted_img)) = 1
   \<and> scores (leaderboard_of_bytes small_config
         (LoadLeaderboard ''scores.dat'' (disk short_file) sorted_img)) =
       scores (leaderboard_of_bytes small_config sorted_img)"
proof -
  define loaded where "loaded = LoadLeaderboard ''scores.dat'' (disk short_file) sorted_img"
  have view: "leaderboard_of_bytes small_config loaded =
      \<lparr>scores = [mk_score 1 ''AL'' 9 ''t1'', mk_score 2 ''BO'' 5 ''t2''], scoreCount = 1\<rparr>"
    unfolding loaded_def load_short_file by (subst leaderboard_of_two_entries) simp_all
  have "length loaded = 36"
    by (simp add: loaded_def load_short_file length_bytes_of_u32 length_entry_bytes)
  then have ne_file: "loaded \<noteq> short_file"
    using length_imgs(4) by auto
  have "scoreCount (leaderboard_of_bytes small_config loaded)
      \<noteq> scoreCount (leaderboard_of_bytes small_config sorted_img)"
    by (simp add: view view_sorted_img)
  then have ne_old: "loaded \<noteq> sorted_img" by auto
  show ?thesis
    using ne_file ne_old open_disk [of short_file]
    by (simp add: view view_sorted_img length_imgs flip: loaded_def)
qed

text \<open>
  Claim C5, amended. When the file cannot be opened, \<^verbatim>\<open>LoadLeaderboard\<close> leaves the
  in-memory leaderboard untouched. When it opens and holds at least
  \<^verbatim>\<open>sizeof(NetworkLeaderboard)\<close> bytes, the leaderboard is replaced in full by the first
  \<^verbatim>\<open>sizeof(NetworkLeaderboard)\<close> bytes of the file. When it opens and holds fewer bytes,
  the leading bytes of the leaderboard are replaced by the file's contents and the
  remaining bytes keep their previous values.
\<close>

theorem LoadLeaderboard_cases:
  "(open_ifstream fs filename = None \<longrightarrow> LoadLeaderboard filename fs img = img)
   \<and> (\<forall>bytes. open_ifstream fs filename = Some bytes \<and> length img \<le> length bytes \<longrightarrow>
          LoadLeaderboard filename fs img = take (length img) bytes)
   \<and> (\<forall>bytes. open_ifstream fs filename = Some bytes \<and> length bytes < length img \<longrightarrow>
          LoadLeaderboard filename fs img = bytes @ drop (length bytes) img)"
  by (simp add: LoadLeaderboard_def istream_read_def)

theorem LoadLeaderboard_cases_witness:
  "open_ifstream (disk unsorted_img) ''missing.dat'' = None
   \<and> LoadLeaderboard ''missing.dat'' (disk unsorted_img) sorted_img = sorted_img
   \<and> open_ifstream (disk unsorted_img) ''scores.dat'' = Some unsorted_img
   \<and> length sorted_img \<le> length unsorted_img
   \<and> LoadLeaderboard ''scores.dat'' (disk unsorted_img) sorted_img = take (length sorted_img) unsorted_img
   \<and> open_ifstream (disk short_file) ''scores.dat'' = Some short_file
   \<and> length short_file < length sorted_img
   \<and> LoadLeaderboard ''scores.dat'' (disk short_file) sorted_img =
        short_file @ drop (length short_file) sorted_img"
proof -
  have none: "open_ifstream (disk unsorted_img) ''missing.dat'' = None"
    by (simp add: open_ifstream_def disk_def)
  show ?thesis
    using none open_disk [of unsorted_img] open_disk [of short_file]
      LoadLeaderboard_cases [of "disk unsorted_img" "''missing.dat''" sorted_img]
      LoadLeaderboard_cases [of "disk unsorted_img" "''scores.dat''" sorted_img]
      LoadLeaderboard_cases [of "disk short_file" "''scores.dat''" sorted_img]
    by (simp add: length_imgs)
qed

subsection \<open>Saving, then loading\<close>

text \<open>
  Claim C7. When \<^verbatim>\<open>SaveLeaderboard\<close> can open the path for writing, a following
  \<^verbatim>\<open>LoadLeaderboard\<close> of the same path gives back the saved leaderboard: on the unmodified
  leaderboard the result is that leaderboard; and when the path opens for reading, loading
  over any in-memory leaderboard \<open>img'\<close> of the same size gives exactly the saved bytes,
  hence the same entry count and the same entries in the same order.
\<close>

theorem SaveLeaderboard_then_Load:
  assumes "opens_for_output fs filename"
  shows "LoadLeaderboard filename (SaveLeaderboard filename fs img) img = img
       \<and> (opens_for_input fs filename \<and> length img' = length img \<longrightarrow>
            LoadLeaderboard filename (SaveLeaderboard filename fs img) img' = img
            \<and> leaderboard_of_bytes cfg (LoadLeaderboard filename (SaveLeaderboard filename fs img) img')
                = leaderboard_of_bytes cfg img)"
  using assms
  by (simp add: LoadLeaderboard_def SaveLeaderboard_def open_ifstream_def istream_read_def)

theorem SaveLeaderboard_then_Load_witness:
  "opens_for_output (disk short_file) ''scores.dat''
   \<and> opens_for_input (disk short_file) ''scores.dat'' \<and> length unsorted_img = length sorted_img
   \<and> LoadLeaderboard ''scores.dat'' (SaveLeaderboard ''scores.dat'' (disk short_file) sorted_img) sorted_img
        = sorted_img
   \<and> LoadLeaderboard ''scores.dat'' (SaveLeaderboard ''scores.dat'' (disk short_file) sorted_img) unsorted_img
        = sorted_img
   \<and> leaderboard_of_bytes small_config
        (LoadLeaderboard ''scores.dat'' (SaveLeaderboard ''scores.dat'' (disk short_file) sorted_img) unsorted_img)
        = \<lparr>scores = [mk_score 1 ''AL'' 9 ''t1'', mk_score 2 ''BO'' 5 ''t2''], scoreCount = 2\<rparr>"
proof -
  have out: "opens_for_output (disk short_file) ''scores.dat''"
    and inp: "opens_for_input (disk short_file) ''scores.dat''"
    by (simp_all add: disk_def)
  show ?thesis
    using out inp
      SaveLeaderboard_then_Load [OF out, of sorted_img unsorted_img small_config]
    by (simp add: length_imgs view_sorted_img)
qed

subsection \<open>No validation of what is loaded\<close>

text \<open>
  Claim C10. For a file that opens, holds at least \<^verbatim>\<open>sizeof(NetworkLeaderboard)\<close> bytes
  and whose count field encodes \<open>c\<close>, \<^verbatim>\<open>LoadLeaderboard\<close> makes the leaderboard the file's
  leading bytes as they are, and the in-memory \<open>scoreCount\<close> is \<open>c\<close>, for every 32-bit
  \<open>c\<close>: nothing compares it with \<open>MAX_LEADERBOARD_SCORES\<close> and nothing sorts or checks the
  entries. The concrete file after the theorem loads a count of 5 into a table of capacity 2,
  with entries in ascending order.
\<close>

theorem LoadLeaderboard_no_validation:
  assumes "open_ifstream fs filename = Some (bytes_of_u32 c @ rest)"
    and "4 \<le> length img" and "length img \<le> 4 + length rest"
  shows "LoadLeaderboard filename fs img = take (length img) (bytes_of_u32 c @ rest)
       \<and> scoreCount (leaderboard_of_bytes cfg (LoadLeaderboard filename fs img)) = unat c"
proof -
  have full: "length img \<le> length (bytes_of_u32 c @ rest)"
    using assms(3) by (simp add: length_bytes_of_u32)
  have loaded: "LoadLeaderboard filename fs img = take (length img) (bytes_of_u32 c @ rest)"
    using LoadLeaderboard_full_file [OF assms(1) full] .
  have "take (length img) (bytes_of_u32 c @ rest) = bytes_of_u32 c @ take (length img - 4) rest"
    using assms(2) by (simp add: length_bytes_of_u32)
  then have "u32_of_bytes (LoadLeaderboard filename fs img) = c"
    by (simp add: loaded u32_of_bytes_of_u32)
  then show ?thesis
    using loaded by (simp add: leaderboard_of_bytes_def)
qed

theorem LoadLeaderboard_no_validation_witness:
  "open_ifstream (disk crafted_img) ''scores.dat'' =
     Some (bytes_of_u32 5 @ entry_bytes 3 ''CY'' 3 ''t3'' @ entry_bytes 4 ''DI'' 7 ''t4'')
   \<and> 4 \<le> length sorted_img
   \<and> length sorted_img \<le> 4 + length (entry_bytes 3 ''CY'' 3 ''t3'' @ entry_bytes 4 ''DI'' 7 ''t4'')
   \<and> LoadLeaderboard ''scores.dat'' (disk crafted_img) sorted_img = crafted_img
   \<and> scoreCount (leaderboard_of_bytes small_config
         (LoadLeaderboard ''scores.dat'' (disk crafted_img) sorted_img)) = 5
   \<and> MAX_LEADERBOARD_SCORES small_config = 2
   \<and> \<not> sorted_desc (scores (leaderboard_of_bytes small_config
         (LoadLeaderboard ''scores.dat'' (disk crafted_img) sorted_img)))"
proof -
  have opened: "open_ifstream (disk crafted_img) ''scores.dat'' =
     Some (bytes_of_u32 5 @ entry_bytes 3 ''CY'' 3 ''t3'' @ entry_bytes 4 ''DI'' 7 ''t4'')"
    using open_disk [of crafted_img] by (simp add: crafted_img_def)
  have lo: "4 \<le> length sorted_img"
    and hi: "length sorted_img \<le> 4 + length (entry_bytes 3 ''CY'' 3 ''t3'' @ entry_bytes 4 ''DI'' 7 ''t4'')"
    by (simp_all add: length_imgs length_entry_bytes)
  have whole: "take (length sorted_img) (bytes_of_u32 5 @ entry_bytes 3 ''CY'' 3 ''t3'' @ entry_bytes 4 ''DI'' 7 ''t4'')
      = crafted_img"
    by (simp add: crafted_img_def length_imgs length_bytes_of_u32 length_entry_bytes)
  note inst = LoadLeaderboard_no_validation [OF opened lo hi, of small_config, unfolded whole]
  have a: "LoadLeaderboard ''scores.dat'' (disk crafted_img) sorted_img = crafted_img"
    using inst by (rule conjunct1)
  have b: "scoreCount (leaderboard_of_bytes small_config
         (LoadLeaderboard ''scores.dat'' (disk crafted_img) sorted_img)) = unat (5 :: uint32_t)"
    using inst by (rule conjunct2)
  have c: "\<not> sorted_desc (scores (leaderboard_of_bytes small_config
         (LoadLeaderboard ''scores.dat'' (disk crafted_img) sorted_img)))"
    by (simp add: a view_crafted_img sorted_desc_two mk_score_def)
  show ?thesis
    using opened lo hi a b c by (simp add: small_sizes)
qed

section \<open>Sortedness of the live slice\<close>

text \<open>
  Claim C2, as stated, makes sortedness an invariant of every mutation of the leaderboard.
  \<^verbatim>\<open>LoadLeaderboard\<close> mutates it too and does not sort: from a sorted leaderboard, loading
  a file of the right size whose two entries ascend leaves a live slice that is not sorted.
\<close>

theorem sorted_after_mutation_counterexample:
  "sorted_desc (live (leaderboard_of_bytes small_config sorted_img))
   \<and> length unsorted_img = sizeof_NetworkLeaderboard small_config
   \<and> length sorted_img = sizeof_NetworkLeaderboard small_config
   \<and> \<not> sorted_desc (live (leaderboard_of_bytes small_config
          (LoadLeaderboard ''scores.dat'' (disk unsorted_img) sorted_img)))"
proof -
  have "LoadLeaderboard ''scores.dat'' (disk unsorted_img) sorted_img = unsorted_img"
    using LoadLeaderboard_full_file [OF open_disk, of sorted_img unsorted_img]
    by (simp add: length_imgs)
  then show ?thesis
    by (simp add: view_sorted_img view_unsorted_img live_def sorted_desc_two mk_score_def
        length_imgs small_sizes)
qed

text \<open>
  Claim C2, amended. After every call of \<^verbatim>\<open>AddScoreToLeaderboard\<close> that returns true, from
  any leaderboard state (sorted before or not) and with any implementation of
  \<^verbatim>\<open>std::sort\<close>, the live slice \<open>scores[0..scoreCount)\<close> is sorted non-increasing by
  score.
\<close>

theorem AddScoreToLeaderboard_sorted:
  assumes "std_sort_ok srt"
    and "AddScoreToLeaderboard cfg srt ident nm sc ts l = Inr (True, l')"
  shows "sorted_desc (live l')"
proof -
  obtain arr where arr: "sort_range srt arr (scoreCount l') = Inr (scores l')"
    using AddScoreToLeaderboard_True [OF assms(2)] by blast
  have "take (scoreCount l') (scores l') = srt (take (scoreCount l') arr)"
    using sort_range_Inr(3) [OF assms(1) arr] .
  then show ?thesis
    by (simp add: live_def std_sort_ok_sorted [OF assms(1)])
qed

theorem AddScoreToLeaderboard_sorted_witness:
  "std_sort_ok insertion_sort
   \<and> AddScoreToLeaderboard example_config insertion_sort 9 ''X'' 60 ''ts'' full_board =
       Inr (True, \<lparr>scores = [mk_score 1 ''AL'' 100 ''t1'', mk_score 2 ''BO'' 80 ''t2'',
                              mk_score 9 ''X'' 60 ''ts''], scoreCount = 3\<rparr>)
   \<and> sorted_desc (live \<lparr>scores = [mk_score 1 ''AL'' 100 ''t1'', mk_score 2 ''BO'' 80 ''t2'',
                              mk_score 9 ''X'' 60 ''ts''], scoreCount = 3\<rparr>)"
  using std_sort_ok_insertion_sort add_60
    AddScoreToLeaderboard_sorted [OF std_sort_ok_insertion_sort add_60]
  by simp

section \<open>Properties of the top-players query\<close>

lemma format_entry_terminated:
  assumes "NUL \<in> set (name e)" and "NUL \<in> set (timestamp e)"
  shows "format_entry x e =
    Inr (dec (x + 1) @ '') '' @ c_str (name e) @ '': '' @ dec (unat (score e)) @ '' [''
           @ c_str (timestamp e) @ '']'')"
  using assms by (simp add: format_entry_def read_c_str_def)

lemma top_loop_lines:
  "cnt \<le> length arr \<Longrightarrow>
   \<forall>i<cnt. NUL \<in> set (name (arr ! i)) \<and> NUL \<in> set (timestamp (arr ! i)) \<Longrightarrow>
   x \<le> cnt \<Longrightarrow>
   top_loop arr cnt x acc =
    Inr (acc @ map (\<lambda>i. dec (i + 1) @ '') '' @ c_str (name (arr ! i)) @ '': ''
                        @ dec (unat (score (arr ! i))) @ '' ['' @ c_str (timestamp (arr ! i)) @ '']'')
                   [x..<cnt])"
proof (induction arr cnt x acc rule: top_loop.induct)
  case (1 arr cnt x topScores)
  show ?case
  proof (cases "x < cnt")
    case True
    then have inb: "\<not> length arr \<le> x" using "1.prems"(1) by arith
    have fmt: "format_entry x (arr ! x) =
        Inr (dec (x + 1) @ '') '' @ c_str (name (arr ! x)) @ '': '' @ dec (unat (score (arr ! x)))
              @ '' ['' @ c_str (timestamp (arr ! x)) @ '']'')"
      using "1.prems"(2) True by (intro format_entry_terminated) simp_all
    have step: "top_loop arr cnt x topScores =
        top_loop arr cnt (x + 1) (topScores @ [dec (x + 1) @ '') '' @ c_str (name (arr ! x)) @ '': ''
              @ dec (unat (score (arr ! x))) @ '' ['' @ c_str (timestamp (arr ! x)) @ '']''])"
      using True inb by (subst top_loop.simps) (simp add: fmt)
    have "x + 1 \<le> cnt" using True by simp
    then show ?thesis
      using "1.IH" [OF True inb fmt "1.prems"(1,2)] True
      by (simp only: step) (simp add: upt_conv_Cons)
  next
    case False
    then have "x = cnt" using "1.prems" by simp
    then show ?thesis by (subst top_loop.simps) simp
  qed
qed

lemma dec_digit: "n < 10 \<Longrightarrow> dec n = [digit n]"
  by (subst dec.simps) simp

lemma dec_more: "\<not> n < 10 \<Longrightarrow> dec n = dec (n div 10) @ [digit (n mod 10)]"
  by (subst dec.simps) simp

lemma dec_examples: "dec (Suc 0) = ''1''" "dec (Suc (Suc 0)) = ''2''" "dec 100 = ''100''" "dec 80 = ''80''"
  by (simp_all add: dec_digit dec_more digit_def)

text \<open>
  Claim C8. For a leaderboard whose count is within its array and whose live entries hold
  terminated texts, and for every \<open>n\<close>, \<^verbatim>\<open>GetTopPlayersFromLeaderboard(n)\<close> returns exactly
  \<open>min(n, scoreCount)\<close> strings in stored order; the string at index \<open>x\<close> is
  \<^verbatim>\<open><rank>) <name>: <score> [<timestamp>]\<close> with rank \<open>x + 1\<close> in decimal and the name, the
  score in decimal and the timestamp of the entry stored at index \<open>x\<close>; and the leaderboard
  after the call is the leaderboard before it.
\<close>

theorem GetTopPlayersFromLeaderboard_lines:
  assumes "scoreCount l \<le> length (scores l)" and "texts_terminated l"
  shows "GetTopPlayersFromLeaderboard n l =
    Inr (map (\<lambda>x. dec (x + 1) @ '') '' @ c_str (name (scores l ! x)) @ '': ''
                     @ dec (unat (score (scores l ! x))) @ '' [''
                     @ c_str (timestamp (scores l ! x)) @ '']'')
           [0..<min (unat n) (scoreCount l)], l)"
proof -
  define cnt where "cnt = (if unat n < scoreCount l then unat n else scoreCount l)"
  have cnt: "cnt = min (unat n) (scoreCount l)"
    by (simp add: cnt_def min_def)
  have le: "cnt \<le> length (scores l)"
    using assms(1) by (simp add: cnt)
  have nul: "\<forall>i<cnt. NUL \<in> set (name (scores l ! i)) \<and> NUL \<in> set (timestamp (scores l ! i))"
  proof (intro allI impI)
    fix i assume i: "i < cnt"
    then have "i < scoreCount l" by (simp add: cnt)
    then have "take (scoreCount l) (scores l) ! i \<in> set (take (scoreCount l) (scores l))"
      using assms(1) by (intro nth_mem) simp
    then have "scores l ! i \<in> set (live l)"
      using \<open>i < scoreCount l\<close> by (simp add: live_def)
    then show "NUL \<in> set (name (scores l ! i)) \<and> NUL \<in> set (timestamp (scores l ! i))"
      using assms(2) unfolding texts_terminated_def by blast
  qed
  have "top_loop (scores l) cnt 0 [] =
    Inr ([] @ map (\<lambda>x. dec (x + 1) @ '') '' @ c_str (name (scores l ! x)) @ '': ''
                     @ dec (unat (score (scores l ! x))) @ '' [''
                     @ c_str (timestamp (scores l ! x)) @ '']'') [0..<cnt])"
    by (rule top_loop_lines [OF le nul]) simp
  then show ?thesis
    by (simp add: GetTopPlayersFromLeaderboard_def Let_def flip: cnt_def cnt)
qed

theorem GetTopPlayersFromLeaderboard_lines_witness:
  "scoreCount full_board \<le> length (scores full_board)
   \<and> texts_terminated full_board
   \<and> GetTopPlayersFromLeaderboard 2 full_board = Inr ([''1) AL: 100 [t1]'', ''2) BO: 80 [t2]''], full_board)"
proof -
  have a: "scoreCount full_board \<le> length (scores full_board)"
    by (simp add: full_board_def)
  have b: "texts_terminated full_board"
    by (simp add: texts_terminated_def live_def full_board_def mk_score_def replicate_num)
  have "min (unat (2 :: uint32_t)) (scoreCount full_board) = 2"
    by (simp add: full_board_def)
  moreover have "[0..<2] = [0, Suc 0]"
    by (simp add: numeral_2_eq_2)
  ultimately have two: "[0..<min (unat (2 :: uint32_t)) (scoreCount full_board)] = [0, Suc 0]"
    by (simp only:)
  have lines: "map (\<lambda>x. dec (x + 1) @ '') '' @ c_str (name (scores full_board ! x)) @ '': ''
                     @ dec (unat (score (scores full_board ! x))) @ '' [''
                     @ c_str (timestamp (scores full_board ! x)) @ '']'') [0, Suc 0] =
      [''1) AL: 100 [t1]'', ''2) BO: 80 [t2]'']"
    by (simp add: full_board_def mk_score_def c_str_def NUL_def dec_examples replicate_num)
  have "GetTopPlayersFromLeaderboard 2 full_board =
      Inr ([''1) AL: 100 [t1]'', ''2) BO: 80 [t2]''], full_board)"
    using GetTopPlayersFromLeaderboard_lines [OF a b, of 2] by (simp only: two lines)
  then show ?thesis
    using a b by blast
qed

end
